theory Spec2Isabelle
  imports Complex_Main "HOL-Library.Sublist" "HOL-Library.Multiset" "HOL-Library.Char_ord" "HOL-Library.List_Lexorder"
begin

section \<open>The leaderboard updater of \<^verbatim>\<open>session_2/challenge/scripts/leaderboard.py\<close>\<close>

text \<open>
  The script reads \<^verbatim>\<open>leaderboard.md\<close>, cuts the table out of it with two
  \<^verbatim>\<open>str.find\<close> calls, reads the rows with one regular expression, puts them in a pandas
  DataFrame, adds the new submission, keeps the best row of every user, sorts, renumbers,
  prints the frame with \<^verbatim>\<open>to_markdown\<close> and writes the file back.

  Everything is one function, \<^verbatim>\<open>generate_leaderboard\<close>. The embedding follows it line by
  line. The library calls it makes (Python's \<^verbatim>\<open>str\<close>, \<^verbatim>\<open>re\<close>, \<^verbatim>\<open>int\<close>,
  \<^verbatim>\<open>float\<close>, pandas 2.x and tabulate) are written out as HOL functions after their
  documented behaviour; each one says where it abstracts.

  A document is a \<^typ>\<open>string\<close>; a character stands for a code point below 256.
\<close>

subsection \<open>Python strings: \<^verbatim>\<open>find\<close>, slices, \<^verbatim>\<open>strip\<close>\<close>

text \<open>\<^verbatim>\<open>s.find(sub)\<close>: the lowest index where \<open>sub\<close> starts in \<open>s\<close>, or \<open>-1\<close>.\<close>

fun find_from :: "nat \<Rightarrow> string \<Rightarrow> string \<Rightarrow> int" where
  "find_from i sub [] = (if sub = [] then int i else -1)"
| "find_from i sub (c # s) = (if prefix sub (c # s) then int i else find_from (Suc i) sub s)"

definition py_find :: "string \<Rightarrow> string \<Rightarrow> int" where
  "py_find s sub = find_from 0 sub s"

text \<open>
  Slice bounds: a negative bound counts from the end, and every bound is clamped to
  \<open>0 .. len(s)\<close>; an empty or inverted range gives the empty string.
\<close>

definition clamp_index :: "nat \<Rightarrow> int \<Rightarrow> nat" where
  "clamp_index n i = (if i < 0 then nat (max 0 (int n + i)) else min n (nat i))"

text \<open>\<^verbatim>\<open>s[a:b]\<close>, \<^verbatim>\<open>s[:b]\<close> and \<^verbatim>\<open>s[a:]\<close>.\<close>

definition slice :: "string \<Rightarrow> int \<Rightarrow> int \<Rightarrow> string" where
  "slice s a b =
     (let lo = clamp_index (length s) a; hi = clamp_index (length s) b
      in take (hi - lo) (drop lo s))"

definition slice_to :: "string \<Rightarrow> int \<Rightarrow> string" where
  "slice_to s b = take (clamp_index (length s) b) s"

definition slice_from :: "string \<Rightarrow> int \<Rightarrow> string" where
  "slice_from s a = drop (clamp_index (length s) a) s"

text \<open>
  \<^verbatim>\<open>str.isspace\<close> on one character below 256: tab to carriage return, the four
  separators \<open>0x1C .. 0x1F\<close>, space, \<open>0x85\<close> and \<open>0xA0\<close>.
\<close>

definition isspace :: "char \<Rightarrow> bool" where
  "isspace c =
     (let n = (of_char c :: nat)
      in (9 \<le> n \<and> n \<le> 13) \<or> (28 \<le> n \<and> n \<le> 32) \<or> n = 133 \<or> n = 160)"

definition strip :: "string \<Rightarrow> string" where
  "strip s = rev (dropWhile isspace (rev (dropWhile isspace s)))"

subsection \<open>The row pattern and \<^verbatim>\<open>re.findall\<close>\<close>

text \<open>
  The pattern is
  \<^verbatim>\<open>\|([^|]+)\|([^|]+)\|([^|]+)\|([^|]+)\|([^|]+)\|\<close>:
  a bar, then five times a group of one or more characters other than a bar (a newline
  is such a character), each followed by a bar. A greedy group can only end at the next
  bar, so a match at a position is unique.

  \<open>cell_group s\<close> reads one \<^verbatim>\<open>([^|]+)\|\<close> at the head of \<open>s\<close> and returns the group and
  what follows the bar.
\<close>

definition bar :: char where
  "bar = CHR ''|''"

definition cell_group :: "string \<Rightarrow> (string \<times> string) option" where
  "cell_group s =
     (let g = takeWhile (\<lambda>c. c \<noteq> bar) s; r = dropWhile (\<lambda>c. c \<noteq> bar) s
      in if g = [] \<or> r = [] then None else Some (g, tl r))"

type_synonym cells = "string \<times> string \<times> string \<times> string \<times> string"

definition match_row :: "string \<Rightarrow> (cells \<times> string) option" where
  "match_row s =
     (case s of
        [] \<Rightarrow> None
      | c # s0 \<Rightarrow>
          if c \<noteq> bar then None
          else (case cell_group s0 of None \<Rightarrow> None | Some (g1, s1) \<Rightarrow>
               (case cell_group s1 of None \<Rightarrow> None | Some (g2, s2) \<Rightarrow>
               (case cell_group s2 of None \<Rightarrow> None | Some (g3, s3) \<Rightarrow>
               (case cell_group s3 of None \<Rightarrow> None | Some (g4, s4) \<Rightarrow>
               (case cell_group s4 of None \<Rightarrow> None | Some (g5, s5) \<Rightarrow>
                  Some ((g1, g2, g3, g4, g5), s5)))))))"

lemma cell_group_shorter: "cell_group s = Some (g, r) \<Longrightarrow> length r < length s"
proof -
  assume a: "cell_group s = Some (g, r)"
  let ?d = "dropWhile (\<lambda>c. c \<noteq> bar) s"
  from a have d: "?d \<noteq> []" and r: "r = tl ?d"
    by (auto simp: cell_group_def Let_def split: if_splits)
  have "length ?d \<le> length s"
    by (rule length_dropWhile_le)
  moreover from d have "length (tl ?d) < length ?d"
    by (cases ?d) auto
  ultimately show ?thesis
    using r by simp
qed

lemma match_row_shorter: "match_row s = Some (cs, r) \<Longrightarrow> length r < length s"
  unfolding match_row_def
  by (auto split: list.splits if_splits option.splits dest!: cell_group_shorter)

text \<open>
  \<^verbatim>\<open>re.findall\<close> scans from the left: where the pattern matches it records the five
  groups and goes on after the match, elsewhere it moves one character on.
\<close>

function re_findall :: "string \<Rightarrow> cells list" where
  "re_findall [] = []"
| "re_findall (c # s) =
     (case match_row (c # s) of
        Some (cs, r) \<Rightarrow> cs # re_findall r
      | None \<Rightarrow> re_findall s)"
  by pat_completeness auto
termination
  by (relation "measure length") (auto dest: match_row_shorter)

subsection \<open>Numbers: \<^verbatim>\<open>int(s)\<close>, \<^verbatim>\<open>float(s)\<close> and float comparison\<close>

definition isdigit :: "char \<Rightarrow> bool" where
  "isdigit c = (let n = (of_char c :: nat) in 48 \<le> n \<and> n \<le> 57)"

definition digit_val :: "char \<Rightarrow> int" where
  "digit_val c = int (of_char c) - 48"

text \<open>
  Python's \<^verbatim>\<open>digitpart\<close>: digits, with single underscores allowed between two digits.
  The result is the digits without the underscores, or \<open>None\<close> when the whole string is
  not a \<^verbatim>\<open>digitpart\<close>.
\<close>

fun digitpart :: "string \<Rightarrow> string option" where
  "digitpart [] = None"
| "digitpart [c] = (if isdigit c then Some [c] else None)"
| "digitpart (c # d # s) =
     (if \<not> isdigit c then None
      else if d = CHR ''_'' then map_option ((#) c) (digitpart s)
      else map_option ((#) c) (digitpart (d # s)))"

definition digits_val :: "string \<Rightarrow> int" where
  "digits_val ds = foldl (\<lambda>a c. 10 * a + digit_val c) 0 ds"

text \<open>An optional sign at the head: whether it is a minus, and what follows it.\<close>

definition sign_split :: "string \<Rightarrow> bool \<times> string" where
  "sign_split s =
     (case s of
        [] \<Rightarrow> (False, [])
      | c # r \<Rightarrow>
          if c = CHR ''-'' then (True, r)
          else if c = CHR ''+'' then (False, r)
          else (False, s))"

definition signed :: "bool \<Rightarrow> int \<Rightarrow> int" where
  "signed neg n = (if neg then - n else n)"

text \<open>
  \<^verbatim>\<open>int(s)\<close> on a string: surrounding white space is dropped, then an optional sign and
  a \<^verbatim>\<open>digitpart\<close> must fill the string. \<open>None\<close> stands for \<^verbatim>\<open>ValueError\<close>.
\<close>

definition py_int :: "string \<Rightarrow> int option" where
  "py_int s =
     (let (neg, body) = sign_split (strip s)
      in map_option (\<lambda>ds. signed neg (digits_val ds)) (digitpart body))"

datatype pyfloat = NaN | NegInf | Fin int int | PosInf

text \<open>
  A Python float is \<open>nan\<close>, an infinity, or a finite number. \<open>Fin m e\<close> stands for
  \<open>m * 10\<^sup>e\<close>. Every binary64 value is such a number, so a statement about all
  \<^typ>\<open>pyfloat\<close> values covers all floats. What the model leaves out: \<^verbatim>\<open>float(s)\<close>
  rounds a literal to the nearest binary64 value (and to an infinity or to zero beyond
  the range), the model keeps the literal's exact value; and \<open>-0.0\<close> is \<open>Fin 0 e\<close>.
\<close>

definition lower :: "char \<Rightarrow> char" where
  "lower c =
     (let n = (of_char c :: nat) in if 65 \<le> n \<and> n \<le> 90 then char_of (n + 32) else c)"

text \<open>
  \<^verbatim>\<open>number ::= [digitpart] "." digitpart | digitpart ["."]\<close>: the digits before and after
  the point.
\<close>

definition number :: "string \<Rightarrow> (string \<times> string) option" where
  "number s =
     (let ip = takeWhile (\<lambda>c. c \<noteq> CHR ''.'') s; r = dropWhile (\<lambda>c. c \<noteq> CHR ''.'') s
      in if r = [] then map_option (\<lambda>ds. (ds, [])) (digitpart ip)
         else let fp = tl r
              in if ip = [] then map_option (\<lambda>fs. ([], fs)) (digitpart fp)
                 else if fp = [] then map_option (\<lambda>ds. (ds, [])) (digitpart ip)
                 else (case (digitpart ip, digitpart fp) of
                         (Some ds, Some fs) \<Rightarrow> Some (ds, fs)
                       | _ \<Rightarrow> None))"

text \<open>\<^verbatim>\<open>exponent ::= ("e" | "E") [sign] digitpart\<close>, absent meaning 0.\<close>

definition exponent :: "string \<Rightarrow> int option" where
  "exponent s =
     (case s of
        [] \<Rightarrow> Some 0
      | c # r \<Rightarrow>
          let (neg, body) = sign_split r
          in map_option (\<lambda>ds. signed neg (digits_val ds)) (digitpart body))"

definition floatnumber :: "string \<Rightarrow> (int \<times> int) option" where
  "floatnumber s =
     (let isE = (\<lambda>c. c = CHR ''e'' \<or> c = CHR ''E'')
      in case (number (takeWhile (\<lambda>c. \<not> isE c) s), exponent (dropWhile (\<lambda>c. \<not> isE c) s)) of
           (Some (ds, fs), Some x) \<Rightarrow> Some (digits_val (ds @ fs), x - int (length fs))
         | _ \<Rightarrow> None)"

text \<open>
  \<^verbatim>\<open>float(s)\<close> on a string: white space dropped, an optional sign, then \<^verbatim>\<open>inf\<close>,
  \<^verbatim>\<open>infinity\<close> or \<^verbatim>\<open>nan\<close> in any case, or a \<^verbatim>\<open>floatnumber\<close>.
  \<open>None\<close> stands for \<^verbatim>\<open>ValueError\<close>.
\<close>

definition py_float :: "string \<Rightarrow> pyfloat option" where
  "py_float s =
     (let (neg, body) = sign_split (strip s); l = map lower body
      in if l = ''inf'' \<or> l = ''infinity'' then Some (if neg then NegInf else PosInf)
         else if l = ''nan'' then Some NaN
         else map_option (\<lambda>(m, e). Fin (signed neg m) e) (floatnumber body))"

text \<open>\<open>m1 * 10\<^sup>e\<^sup>1 < m2 * 10\<^sup>e\<^sup>2\<close>, computed on integers.\<close>

definition dec_less :: "int \<Rightarrow> int \<Rightarrow> int \<Rightarrow> int \<Rightarrow> bool" where
  "dec_less m1 e1 m2 e2 =
     (let e = min e1 e2 in m1 * 10 ^ nat (e1 - e) < m2 * 10 ^ nat (e2 - e))"

text \<open>Python's \<^verbatim>\<open>a < b\<close> on floats: false as soon as one side is \<open>nan\<close>.\<close>

fun flt :: "pyfloat \<Rightarrow> pyfloat \<Rightarrow> bool" where
  "flt NaN b = False"
| "flt a NaN = False"
| "flt NegInf NegInf = False"
| "flt NegInf b = True"
| "flt PosInf b = False"
| "flt (Fin m1 e1) NegInf = False"
| "flt (Fin m1 e1) PosInf = True"
| "flt (Fin m1 e1) (Fin m2 e2) = dec_less m1 e1 m2 e2"

text \<open>\<^verbatim>\<open>a <= b\<close> for two floats that are not \<open>nan\<close>.\<close>

definition fle :: "pyfloat \<Rightarrow> pyfloat \<Rightarrow> bool" where
  "fle a b = (a \<noteq> NaN \<and> b \<noteq> NaN \<and> \<not> flt b a)"

definition isnan :: "pyfloat \<Rightarrow> bool" where
  "isnan a = (a = NaN)"

subsection \<open>The DataFrame: rows, column conversion, the new entry\<close>

text \<open>
  A frame is the list of its rows, in index order; after \<^verbatim>\<open>ignore_index=True\<close> and
  \<^verbatim>\<open>reset_index(drop=True)\<close> the label of a row is its position.
\<close>

record row =
  rank :: int
  profile_image :: string
  github_username :: string
  solution :: string
  accuracy :: pyfloat

text \<open>
  What the script can raise before it writes: \<^verbatim>\<open>ValueError\<close> from \<^verbatim>\<open>astype\<close>
  (the message quotes the cell), \<^verbatim>\<open>OverflowError\<close> for a rank outside 64 bits, and
  \<^verbatim>\<open>KeyError\<close> from \<^verbatim>\<open>df.loc\<close> when \<^verbatim>\<open>idxmax\<close> found no number in a group
  (pandas 2.x; later versions raise in \<^verbatim>\<open>idxmax\<close> itself).
\<close>

datatype error = ValueError string | OverflowError string | KeyError

definition strip_cells :: "cells \<Rightarrow> cells" where
  "strip_cells cs = (case cs of (a, b, c, d, e) \<Rightarrow> (strip a, strip b, strip c, strip d, strip e))"

definition to_int64 :: "string \<Rightarrow> error + int" where
  "to_int64 s =
     (case py_int s of
        None \<Rightarrow> Inl (ValueError s)
      | Some n \<Rightarrow> if - (2 ^ 63) \<le> n \<and> n < 2 ^ 63 then Inr n else Inl (OverflowError s))"

text \<open>\<^verbatim>\<open>astype(int)\<close> and \<^verbatim>\<open>astype(float)\<close> on a column of strings: the first cell that
  does not convert raises.\<close>

fun astype_int :: "string list \<Rightarrow> error + int list" where
  "astype_int [] = Inr []"
| "astype_int (s # ss) =
     (case to_int64 s of
        Inl e \<Rightarrow> Inl e
      | Inr n \<Rightarrow> (case astype_int ss of Inl e \<Rightarrow> Inl e | Inr ns \<Rightarrow> Inr (n # ns)))"

fun astype_float :: "string list \<Rightarrow> error + pyfloat list" where
  "astype_float [] = Inr []"
| "astype_float (s # ss) =
     (case py_float s of
        None \<Rightarrow> Inl (ValueError s)
      | Some v \<Rightarrow> (case astype_float ss of Inl e \<Rightarrow> Inl e | Inr vs \<Rightarrow> Inr (v # vs)))"

definition make_row :: "int \<times> pyfloat \<times> cells \<Rightarrow> row" where
  "make_row x =
     (case x of (r, v, (c1, c2, c3, c4, c5)) \<Rightarrow>
        \<lparr>rank = r, profile_image = c2, github_username = c3, solution = c4, accuracy = v\<rparr>)"

text \<open>
  Lines 46 to 62: the frame of the extracted rows, every cell stripped, then the
  \<^verbatim>\<open>Rank\<close> column converted, then the \<^verbatim>\<open>Accuracy %\<close> column.
\<close>

definition read_frame :: "cells list \<Rightarrow> error + row list" where
  "read_frame rows =
     (let st = map strip_cells rows
      in case astype_int (map fst st) of
           Inl e \<Rightarrow> Inl e
         | Inr rs \<Rightarrow>
             (case astype_float (map (\<lambda>(c1, c2, c3, c4, c5). c5) st) of
                Inl e \<Rightarrow> Inl e
              | Inr vs \<Rightarrow> Inr (map make_row (zip rs (zip vs st)))))"

definition repo_url :: string where
  "repo_url =
     ''https://github.com/infocusp/llm_seminar_series/blob/main/session_2/challenge/submissions''"

text \<open>Lines 66 to 73: the row of the submission, with the provisional rank \<open>len(df) + 1\<close>.\<close>

definition new_entry :: "nat \<Rightarrow> string \<Rightarrow> pyfloat \<Rightarrow> string \<Rightarrow> row" where
  \<open>new_entry n prompt_name acc github_user =
     \<lparr>rank = int n + 1,
      profile_image =
        ''<img src="https://github.com/'' @ github_user @ ''.png" ''
        @ ''width="50px" height="50px" class="profile-image">'',
      github_username = ''['' @ github_user @ ''](https://github.com/'' @ github_user @ '')'',
      solution = ''['' @ prompt_name @ '']('' @ repo_url @ ''/'' @ prompt_name @ ''.py)'',
      accuracy = acc\<rparr>\<close>

subsection \<open>Best row of every user: \<^verbatim>\<open>groupby(...).idxmax()\<close> and \<^verbatim>\<open>loc\<close>\<close>

text \<open>
  \<^verbatim>\<open>idxmax\<close> on the scores of one group, given with their labels: the label of the first
  occurrence of the maximum, \<open>nan\<close> skipped. A later score replaces the best one only
  when it is strictly greater. A group with no number gives \<open>None\<close> (pandas' \<open>nan\<close>).
\<close>

fun argmax_from :: "nat \<times> pyfloat \<Rightarrow> (nat \<times> pyfloat) list \<Rightarrow> nat" where
  "argmax_from (j, w) [] = j"
| "argmax_from (j, w) ((i, v) # xs) =
     (if flt w v then argmax_from (i, v) xs else argmax_from (j, w) xs)"

fun idxmax :: "(nat \<times> pyfloat) list \<Rightarrow> nat option" where
  "idxmax [] = None"
| "idxmax ((i, v) # xs) = (if isnan v then idxmax xs else Some (argmax_from (i, v) xs))"

text \<open>The scores of the rows whose user cell is \<open>k\<close>, with their labels.\<close>

definition group_scores :: "row list \<Rightarrow> string \<Rightarrow> (nat \<times> pyfloat) list" where
  "group_scores df k =
     map (\<lambda>i. (i, accuracy (df ! i)))
       (filter (\<lambda>i. github_username (df ! i) = k) [0..<length df])"

text \<open>
  \<^verbatim>\<open>groupby\<close> sorts the group keys (\<^verbatim>\<open>sort=True\<close>); Python compares strings by code
  point, as the lexicographic order on \<^typ>\<open>string\<close> does.
\<close>

definition group_keys :: "row list \<Rightarrow> string list" where
  "group_keys df = sort (remdups (map github_username df))"

definition groupby_idxmax :: "row list \<Rightarrow> nat option list" where
  "groupby_idxmax df = map (\<lambda>k. idxmax (group_scores df k)) (group_keys df)"

text \<open>\<^verbatim>\<open>df.loc[labels]\<close>: the rows at the labels, in their order; a \<open>nan\<close> label is no
  label of the frame.\<close>

fun loc :: "row list \<Rightarrow> nat option list \<Rightarrow> error + row list" where
  "loc df [] = Inr []"
| "loc df (None # ls) = Inl KeyError"
| "loc df (Some i # ls) = (case loc df ls of Inl e \<Rightarrow> Inl e | Inr rs \<Rightarrow> Inr (df ! i # rs))"

subsection \<open>Sorting and ranking\<close>

text \<open>
  \<^verbatim>\<open>sort_values(by="Accuracy %", ascending=False)\<close> is called with the default
  \<^verbatim>\<open>kind="quicksort"\<close>, which pandas and NumPy document as not stable: which of two
  equal scores comes first is left to NumPy's build. The sort is therefore a parameter
  of the model: \<open>argsort ks\<close> is the permutation \<^verbatim>\<open>ks.argsort()\<close> returns. What NumPy
  guarantees of it is \<open>argsort_ok\<close>; \<open>argsort_stable\<close> is what \<^verbatim>\<open>kind="stable"\<close> would add.
\<close>

type_synonym argsort = "pyfloat list \<Rightarrow> nat list"

definition argsort_ok :: "argsort \<Rightarrow> bool" where
  "argsort_ok argsort =
     (\<forall>ks. NaN \<notin> set ks \<longrightarrow>
        mset (argsort ks) = mset [0..<length ks]
        \<and> sorted_wrt fle (map (\<lambda>i. ks ! i) (argsort ks)))"


text \<open>
  pandas' \<^verbatim>\<open>nargsort\<close> for a descending sort: the \<open>nan\<close> rows are set aside, the others
  are reversed, sorted ascending, and the result is reversed again; the \<open>nan\<close> rows
  come last (\<^verbatim>\<open>na_position="last"\<close>).
\<close>

definition nargsort_desc :: "argsort \<Rightarrow> pyfloat list \<Rightarrow> nat list" where
  "nargsort_desc argsort items =
     (let idx = [0..<length items];
          non_nan_idx = rev (filter (\<lambda>i. \<not> isnan (items ! i)) idx);
          nan_idx = filter (\<lambda>i. isnan (items ! i)) idx;
          non_nans = map (\<lambda>i. items ! i) non_nan_idx;
          indexer = rev (map (\<lambda>j. non_nan_idx ! j) (argsort non_nans))
      in indexer @ nan_idx)"

definition sort_values :: "argsort \<Rightarrow> row list \<Rightarrow> row list" where
  "sort_values argsort df = map (\<lambda>i. df ! i) (nargsort_desc argsort (map accuracy df))"

text \<open>Line 87, after \<^verbatim>\<open>reset_index(drop=True)\<close>: \<^verbatim>\<open>df_sorted["Rank"] = df_sorted.index + 1\<close>.\<close>

definition assign_rank :: "row list \<Rightarrow> row list" where
  "assign_rank df = map (\<lambda>(i, r). r\<lparr>rank := int i + 1\<rparr>) (enumerate 0 df)"

subsection \<open>Printing numbers: \<^verbatim>\<open>str(n)\<close> and \<^verbatim>\<open>format(x, "g")\<close>\<close>

definition digit_char :: "int \<Rightarrow> char" where
  "digit_char d = char_of (48 + d)"

text \<open>The decimal digits of \<open>n \<ge> 0\<close>.\<close>

function digits :: "int \<Rightarrow> string" where
  "digits n = (if n < 10 then [digit_char n] else digits (n div 10) @ [digit_char (n mod 10)])"
  by pat_completeness auto
termination
  by (relation "measure nat") auto

declare digits.simps [simp del]

definition show_int :: "int \<Rightarrow> string" where
  "show_int n = (if n < 0 then CHR ''-'' # digits (- n) else digits n)"

definition rstrip0 :: "string \<Rightarrow> string" where
  "rstrip0 s = rev (dropWhile (\<lambda>c. c = CHR ''0'') (rev s))"

text \<open>
  \<open>sig6 a e\<close> rounds \<open>a * 10\<^sup>e\<close> (\<open>a > 0\<close>) to six significant digits, half to even:
  the six digits as a number \<open>n\<close> and the decimal exponent \<open>x\<close> of the first one, so
  that the rounded value is \<open>n * 10\<^sup>x\<^sup>-\<^sup>5\<close>.
\<close>

definition sig6 :: "int \<Rightarrow> int \<Rightarrow> int \<times> int" where
  "sig6 a e =
     (let k = length (digits a); x = int k - 1 + e
      in if k \<le> 6 then (a * 10 ^ (6 - k), x)
         else let p = 10 ^ (k - 6); q = a div p; r = a mod p;
                  n = (if p < 2 * r \<or> (2 * r = p \<and> odd q) then q + 1 else q)
              in if n = 10 ^ 6 then (10 ^ 5, x + 1) else (n, x))"

text \<open>Fixed notation, for \<open>-4 \<le> x < 6\<close>; trailing zeros and a trailing point go.\<close>

definition fixed_g :: "int \<Rightarrow> int \<Rightarrow> string" where
  "fixed_g n x =
     (let ds = digits n
      in if 0 \<le> x
         then let ip = take (nat x + 1) ds; fp = rstrip0 (drop (nat x + 1) ds)
              in if fp = [] then ip else ip @ ''.'' @ fp
         else ''0.'' @ replicate (nat (- x - 1)) (CHR ''0'') @ rstrip0 ds)"

text \<open>Scientific notation: the exponent has a sign and at least two digits.\<close>

definition sci_g :: "int \<Rightarrow> int \<Rightarrow> string" where
  "sci_g n x =
     (let ds = digits n; fp = rstrip0 (tl ds);
          mant = (if fp = [] then take 1 ds else take 1 ds @ ''.'' @ fp);
          ax = \<bar>x\<bar>
      in mant @ ''e'' @ (if x < 0 then ''-'' else ''+'')
         @ (if ax < 10 then ''0'' else []) @ digits ax)"

text \<open>\<^verbatim>\<open>format(x, "g")\<close>: six significant digits, scientific when the exponent is below
  \<open>-4\<close> or at least 6.\<close>

definition format_g :: "pyfloat \<Rightarrow> string" where
  "format_g v =
     (case v of
        NaN \<Rightarrow> ''nan''
      | PosInf \<Rightarrow> ''inf''
      | NegInf \<Rightarrow> ''-inf''
      | Fin m e \<Rightarrow>
          if m = 0 then ''0''
          else let (n, x) = sig6 \<bar>m\<bar> e;
                   body = (if x < - 4 \<or> 6 \<le> x then sci_g n x else fixed_g n x)
               in if m < 0 then CHR ''-'' # body else body)"

subsection \<open>\<^verbatim>\<open>to_markdown(index=False)\<close>: tabulate's \<^verbatim>\<open>pipe\<close> format\<close>

text \<open>
  \<^verbatim>\<open>to_markdown\<close> hands the frame to \<^verbatim>\<open>tabulate(df, headers="keys", tablefmt="pipe",
  showindex=False)\<close>. tabulate prints the column names, an alignment row and one row per
  record. It guesses a type for every column: the \<^verbatim>\<open>Rank\<close> column holds integers and the
  \<^verbatim>\<open>Accuracy %\<close> column floats, printed with \<^verbatim>\<open>floatfmt="g"\<close>; a text column is read
  as numbers when every cell of it converts. Numeric columns are aligned on the decimal
  point and to the right, the others to the left.

  Left out: cells with ANSI escape sequences or characters wider than one column, and
  numbers written with thousands separators.
\<close>

datatype coltype = TBool | TInt | TFloat | TStr

fun generality :: "coltype \<Rightarrow> nat" where
  "generality TBool = 1"
| "generality TInt = 2"
| "generality TFloat = 3"
| "generality TStr = 5"

definition more_generic :: "coltype \<Rightarrow> coltype \<Rightarrow> coltype" where
  "more_generic a b = (if generality a \<le> generality b then b else a)"

definition isnumber :: "string \<Rightarrow> bool" where
  "isnumber s =
     (case py_float s of
        None \<Rightarrow> False
      | Some (Fin m e) \<Rightarrow> True
      | Some v \<Rightarrow> map lower s \<in> set [''inf'', ''-inf'', ''nan''])"

definition type_of_text :: "string \<Rightarrow> coltype" where
  "type_of_text s =
     (if s = ''True'' \<or> s = ''False'' then TBool
      else if py_int s \<noteq> None then TInt
      else if isnumber s then TFloat
      else TStr)"

definition column_type :: "string list \<Rightarrow> coltype" where
  "column_type ss = foldl more_generic TBool (map type_of_text ss)"

text \<open>
  \<^verbatim>\<open>_format(val, valtype, ...)\<close> on a text cell: in a column read as floats the cell
  is printed with \<^verbatim>\<open>format(float(val), "g")\<close>, which raises on a cell such as
  \<^verbatim>\<open>True\<close>; in any other column the cell is printed as it is.
\<close>

definition format_text :: "coltype \<Rightarrow> string \<Rightarrow> error + string" where
  "format_text ct s =
     (if ct = TFloat
      then (case py_float s of None \<Rightarrow> Inl (ValueError s) | Some v \<Rightarrow> Inr (format_g v))
      else Inr s)"

fun format_column :: "coltype \<Rightarrow> string list \<Rightarrow> error + string list" where
  "format_column ct [] = Inr []"
| "format_column ct (s # ss) =
     (case format_text ct s of
        Inl e \<Rightarrow> Inl e
      | Inr t \<Rightarrow> (case format_column ct ss of Inl e \<Rightarrow> Inl e | Inr ts \<Rightarrow> Inr (t # ts)))"

text \<open>A text column: whether it is aligned as numbers, and its printed cells.\<close>

definition text_column :: "string list \<Rightarrow> error + bool \<times> string list" where
  "text_column ss =
     (let ct = column_type ss
      in case format_column ct ss of
           Inl e \<Rightarrow> Inl e
         | Inr ts \<Rightarrow> Inr (ct = TInt \<or> ct = TFloat, ts))"

text \<open>\<^verbatim>\<open>_afterpoint\<close>: the number of characters after the decimal point (or after the
  \<open>e\<close>), \<open>-1\<close> for an integer or for text.\<close>

definition afterpoint :: "string \<Rightarrow> int" where
  "afterpoint s =
     (if \<not> isnumber s \<or> py_int s \<noteq> None then - 1
      else if CHR ''.'' \<in> set s then int (length (takeWhile (\<lambda>c. c \<noteq> CHR ''.'') (rev s)))
      else if CHR ''e'' \<in> set (map lower s)
           then int (length (takeWhile (\<lambda>c. lower c \<noteq> CHR ''e'') (rev s)))
      else - 1)"

definition space :: char where
  "space = CHR '' ''"

definition padleft :: "nat \<Rightarrow> string \<Rightarrow> string" where
  "padleft w s = replicate (w - length s) space @ s"

definition padright :: "nat \<Rightarrow> string \<Rightarrow> string" where
  "padright w s = s @ replicate (w - length s) space"

text \<open>
  One column, printed: the header cell, the segment of the alignment row, and the
  cells, all of the same width. The column is as wide as its widest cell and at least two
  wider than its header; one space of padding goes on each side.
\<close>

definition align_decimal :: "string list \<Rightarrow> string list" where
  "align_decimal cs =
     (let ds = map afterpoint cs; md = fold max ds (- 1)
      in map (\<lambda>(s, d). s @ replicate (nat (md - d)) space) (zip cs ds))"

definition render_column :: "bool \<Rightarrow> string \<Rightarrow> string list \<Rightarrow> string list" where
  "render_column numeric h cs =
     (let ss = (if numeric then align_decimal cs else map strip cs);
          w = fold max (map length ss) (length h + 2);
          pad = (if numeric then padleft w else padright w);
          seg = (if numeric then replicate (w + 1) (CHR ''-'') @ '':''
                 else '':'' @ replicate (w + 1) (CHR ''-''))
      in (space # pad h @ [space]) # seg # map (\<lambda>s. space # pad s @ [space]) ss)"

definition pipe_line :: "string list \<Rightarrow> string" where
  "pipe_line cs = bar # concat (map (\<lambda>c. c @ [bar]) cs)"

definition newline :: char where
  "newline = CHR 0x0A"

fun join_lines :: "string list \<Rightarrow> string" where
  "join_lines [] = []"
| "join_lines [l] = l"
| "join_lines (l # m # ls) = l @ newline # join_lines (m # ls)"

definition to_markdown :: "row list \<Rightarrow> error + string" where
  "to_markdown df =
     (case text_column (map profile_image df) of Inl e \<Rightarrow> Inl e | Inr (n2, c2) \<Rightarrow>
     (case text_column (map github_username df) of Inl e \<Rightarrow> Inl e | Inr (n3, c3) \<Rightarrow>
     (case text_column (map solution df) of Inl e \<Rightarrow> Inl e | Inr (n4, c4) \<Rightarrow>
        Inr (join_lines (map pipe_line (transpose
          [render_column True ''Rank'' (map (\<lambda>r. show_int (rank r)) df),
           render_column n2 ''Profile Image'' c2,
           render_column n3 ''GitHub Username'' c3,
           render_column n4 ''Solution'' c4,
           render_column True ''Accuracy %'' (map (\<lambda>r. format_g (accuracy r)) df)]))))))"

subsection \<open>\<^verbatim>\<open>generate_leaderboard\<close>\<close>

definition start_marker :: string where
  "start_marker = ''<!-- leader-board-begins -->'' @ [newline]"

definition end_marker :: string where
  "end_marker = newline # ''<!-- leader-board-ends -->''"

text \<open>Lines 32 to 43: the rows read from the document.\<close>

definition extracted_rows :: "string \<Rightarrow> cells list" where
  "extracted_rows content =
     (let start_index = py_find content start_marker;
          end_index = py_find content end_marker;
          table_content = slice content start_index end_index
      in drop 2 (re_findall table_content))"

text \<open>
  Lines 75 to 87 on a frame and the new entry: the best row of every user
  (\<^verbatim>\<open>df_highest\<close>), then the sorted and renumbered frame.
\<close>

definition df_highest :: "row list \<Rightarrow> error + row list" where
  "df_highest df = loc df (groupby_idxmax df)"

definition merge :: "argsort \<Rightarrow> row list \<Rightarrow> row \<Rightarrow> error + row list" where
  "merge argsort df entry =
     (case df_highest (df @ [entry]) of
        Inl e \<Rightarrow> Inl e
      | Inr hi \<Rightarrow> Inr (assign_rank (sort_values argsort hi)))"

text \<open>Lines 32 to 87: \<^verbatim>\<open>df_sorted\<close> for a document and a submission.\<close>

definition df_sorted :: "argsort \<Rightarrow> string \<Rightarrow> string \<Rightarrow> pyfloat \<Rightarrow> string \<Rightarrow> error + row list" where
  "df_sorted argsort content prompt_name acc github_user =
     (case read_frame (extracted_rows content) of
        Inl e \<Rightarrow> Inl e
      | Inr df \<Rightarrow> merge argsort df (new_entry (length df) prompt_name acc github_user))"

text \<open>Lines 93 to 97: the new content around a table.\<close>

definition new_content :: "string \<Rightarrow> string \<Rightarrow> string" where
  "new_content content markdown_table =
     slice_to content (py_find content start_marker + int (length start_marker))
     @ markdown_table
     @ slice_from content (py_find content end_marker)"

text \<open>
  The whole function, on the content of \<^verbatim>\<open>leaderboard.md\<close>: what it raises, if
  anything, and the content of the file afterwards. The file is opened for writing on
  line 100 only, so an exception before leaves it as it was.
\<close>

definition generate_leaderboard ::
  "argsort \<Rightarrow> string \<Rightarrow> pyfloat \<Rightarrow> string \<Rightarrow> string \<Rightarrow> error option \<times> string" where
  "generate_leaderboard argsort prompt_name acc github_user file =
     (case df_sorted argsort file prompt_name acc github_user of
        Inl e \<Rightarrow> (Some e, file)
      | Inr df \<Rightarrow>
          (case to_markdown df of
             Inl e \<Rightarrow> (Some e, file)
           | Inr markdown_table \<Rightarrow> (None, new_content file markdown_table)))"

subsection \<open>Two sorts that meet NumPy's contract\<close>

text \<open>
  Insertion sort on the indices. With \<open>first a b = (\<not> b < a)\<close> an index goes in front of
  the later indices of equal score, which is a stable sort; with \<open>first a b = (a < b)\<close>
  it goes behind them, which is a sort, but not a stable one.
\<close>

fun insert_index :: "(pyfloat \<Rightarrow> pyfloat \<Rightarrow> bool) \<Rightarrow> pyfloat list \<Rightarrow> nat \<Rightarrow> nat list \<Rightarrow> nat list" where
  "insert_index first ks i [] = [i]"
| "insert_index first ks i (j # js) =
     (if first (ks ! i) (ks ! j) then i # j # js else j # insert_index first ks i js)"

definition insertion_argsort :: "(pyfloat \<Rightarrow> pyfloat \<Rightarrow> bool) \<Rightarrow> argsort" where
  "insertion_argsort first ks = foldr (insert_index first ks) [0..<length ks] []"

definition stable_argsort :: argsort where
  "stable_argsort = insertion_argsort (\<lambda>a b. \<not> flt b a)"


section \<open>Properties\<close>

subsection \<open>Float comparison is a total preorder away from \<open>nan\<close>\<close>

lemma dec_less_iff:
  "dec_less m1 e1 m2 e2 \<longleftrightarrow> of_int m1 * 10 powi e1 < (of_int m2 * 10 powi e2 :: rat)"
proof -
  define e where "e = min e1 e2"
  have p: "(0::rat) < 10 powi e" by simp
  have a: "(10::rat) powi e1 = 10 ^ nat (e1 - e) * 10 powi e"
    unfolding e_def by (simp add: power_int_add [symmetric] flip: power_int_of_nat)
  have b: "(10::rat) powi e2 = 10 ^ nat (e2 - e) * 10 powi e"
    unfolding e_def by (simp add: power_int_add [symmetric] flip: power_int_of_nat)
  have "dec_less m1 e1 m2 e2 \<longleftrightarrow> m1 * 10 ^ nat (e1 - e) < m2 * 10 ^ nat (e2 - e)"
    by (simp add: dec_less_def e_def Let_def)
  also have "\<dots> \<longleftrightarrow> (of_int (m1 * 10 ^ nat (e1 - e)) :: rat) < of_int (m2 * 10 ^ nat (e2 - e))"
    by (simp only: of_int_less_iff)
  also have "\<dots> \<longleftrightarrow> (of_int m1 * 10 ^ nat (e1 - e)) * 10 powi e < (of_int m2 * 10 ^ nat (e2 - e) :: rat) * 10 powi e"
    using p by (simp del: power_int_eq_0_iff)
  also have "\<dots> \<longleftrightarrow> of_int m1 * 10 powi e1 < (of_int m2 * 10 powi e2 :: rat)"
    by (simp only: a b mult.assoc)
  finally show ?thesis .
qed

lemma flt_irrefl: "\<not> flt a a"
  by (cases a) (simp_all add: dec_less_iff)

lemma flt_trans: "flt a b \<Longrightarrow> flt b c \<Longrightarrow> flt a c"
  by (cases a; cases b; cases c) (auto simp: dec_less_iff)

lemma flt_asym: "flt a b \<Longrightarrow> \<not> flt b a"
  using flt_irrefl flt_trans by blast

lemma flt_nan: "\<not> flt a NaN" "\<not> flt NaN a"
  by (cases a; simp)+

lemma flt_negtrans: "a \<noteq> NaN \<Longrightarrow> b \<noteq> NaN \<Longrightarrow> c \<noteq> NaN \<Longrightarrow> \<not> flt a b \<Longrightarrow> \<not> flt b c \<Longrightarrow> \<not> flt a c"
  by (cases a; cases b; cases c) (auto simp: dec_less_iff)

lemma fle_refl: "a \<noteq> NaN \<Longrightarrow> fle a a"
  by (simp add: fle_def flt_irrefl)

lemma fle_trans: "fle a b \<Longrightarrow> fle b c \<Longrightarrow> fle a c"
  unfolding fle_def using flt_negtrans by blast

lemma fle_total: "a \<noteq> NaN \<Longrightarrow> b \<noteq> NaN \<Longrightarrow> fle a b \<or> fle b a"
  unfolding fle_def using flt_asym by blast

lemma flt_imp_fle: "flt a b \<Longrightarrow> fle a b"
  unfolding fle_def using flt_asym flt_nan by blast

subsection \<open>\<^verbatim>\<open>idxmax\<close> keeps the first row among those of the highest score\<close>

text \<open>
  \<open>best_at xs i v\<close>: label \<open>i\<close> carries the score \<open>v\<close>, every score before it in the
  group is \<open>nan\<close> or strictly smaller, and no score after it is greater.
\<close>

definition best_at :: "(nat \<times> pyfloat) list \<Rightarrow> nat \<Rightarrow> pyfloat \<Rightarrow> bool" where
  "best_at xs i v \<longleftrightarrow>
     (\<exists>ys zs. xs = ys @ (i, v) # zs
        \<and> (\<forall>u \<in> snd ` set ys. u = NaN \<or> flt u v)
        \<and> (\<forall>u \<in> snd ` set zs. \<not> flt v u))"

lemma best_at_here: "\<forall>u \<in> snd ` set xs. \<not> flt v u \<Longrightarrow> best_at ((i, v) # xs) i v"
  unfolding best_at_def by (rule exI [of _ "[]"], rule exI [of _ xs]) simp

lemma best_at_Cons: "best_at xs i v \<Longrightarrow> u = NaN \<or> flt u v \<Longrightarrow> best_at ((k, u) # xs) i v"
proof -
  assume "best_at xs i v" and u: "u = NaN \<or> flt u v"
  then obtain ys zs where h: "xs = ys @ (i, v) # zs"
      "\<forall>u \<in> snd ` set ys. u = NaN \<or> flt u v" "\<forall>u \<in> snd ` set zs. \<not> flt v u"
    unfolding best_at_def by blast
  show ?thesis
    unfolding best_at_def
    by (rule exI [of _ "(k, u) # ys"], rule exI [of _ zs]) (use h u in simp)
qed

lemma argmax_from_split:
  "w \<noteq> NaN \<Longrightarrow> argmax_from (j, w) xs = i \<Longrightarrow>
     (i = j \<and> (\<forall>u \<in> snd ` set xs. \<not> flt w u)) \<or> (\<exists>v. flt w v \<and> best_at xs i v)"
proof (induction xs arbitrary: j w)
  case Nil
  then show ?case by simp
next
  case (Cons x xs)
  obtain k u where x: "x = (k, u)" by (cases x)
  show ?case
  proof (cases "flt w u")
    case True
    then have u: "u \<noteq> NaN" using flt_nan by blast
    from Cons.prems True x have "argmax_from (k, u) xs = i" by simp
    from Cons.IH [OF u this] show ?thesis
    proof
      assume a: "i = k \<and> (\<forall>u' \<in> snd ` set xs. \<not> flt u u')"
      then have "best_at (x # xs) i u"
        unfolding x using best_at_here [of xs u k] by simp
      with True show ?thesis by blast
    next
      assume "\<exists>v. flt u v \<and> best_at xs i v"
      then obtain v where v: "flt u v" "best_at xs i v" by blast
      have "best_at (x # xs) i v"
        unfolding x using best_at_Cons [OF v(2)] v(1) by blast
      moreover have "flt w v" by (rule flt_trans [OF True v(1)])
      ultimately show ?thesis by blast
    qed
  next
    case False
    from Cons.prems False x have "argmax_from (j, w) xs = i" by simp
    from Cons.IH [OF Cons.prems(1) this] show ?thesis
    proof
      assume "i = j \<and> (\<forall>u' \<in> snd ` set xs. \<not> flt w u')"
      then show ?thesis using x False by simp
    next
      assume "\<exists>v. flt w v \<and> best_at xs i v"
      then obtain v where v: "flt w v" "best_at xs i v" by blast
      have vn: "v \<noteq> NaN" using v(1) flt_nan by blast
      have "u = NaN \<or> flt u v"
        using flt_negtrans [OF Cons.prems(1) _ vn False] v(1) by blast
      then have "best_at (x # xs) i v"
        unfolding x by (rule best_at_Cons [OF v(2)])
      with v(1) show ?thesis by blast
    qed
  qed
qed

lemma idxmax_None: "idxmax xs = None \<longleftrightarrow> (\<forall>u \<in> snd ` set xs. u = NaN)"
  by (induction xs rule: idxmax.induct) (simp_all add: isnan_def)

lemma idxmax_Some: "idxmax xs = Some i \<Longrightarrow> \<exists>v. v \<noteq> NaN \<and> best_at xs i v"
proof (induction xs rule: idxmax.induct)
  case 1
  then show ?case by simp
next
  case (2 j w xs)
  show ?case
  proof (cases "isnan w")
    case True
    with 2 obtain v where v: "v \<noteq> NaN" "best_at xs i v" by auto
    from True have "w = NaN" by (simp add: isnan_def)
    then have "best_at ((j, w) # xs) i v"
      using best_at_Cons [OF v(2)] by blast
    with v(1) show ?thesis by blast
  next
    case False
    then have w: "w \<noteq> NaN" by (simp add: isnan_def)
    from 2(2) False have a: "argmax_from (j, w) xs = i" by simp
    from argmax_from_split [OF w a] show ?thesis
    proof
      assume "i = j \<and> (\<forall>u \<in> snd ` set xs. \<not> flt w u)"
      then have "best_at ((j, w) # xs) i w"
        using best_at_here [of xs w j] by simp
      with w show ?thesis by blast
    next
      assume "\<exists>v. flt w v \<and> best_at xs i v"
      then obtain v where v: "flt w v" "best_at xs i v" by blast
      have "best_at ((j, w) # xs) i v"
        using best_at_Cons [OF v(2)] v(1) by blast
      moreover have "v \<noteq> NaN" using v(1) flt_nan by blast
      ultimately show ?thesis by blast
    qed
  qed
qed

lemma loc_Some: "None \<notin> set ls \<Longrightarrow> loc df ls = Inr (map (\<lambda>l. df ! the l) ls)"
  by (induction df ls rule: loc.induct) simp_all

lemma loc_None: "None \<in> set ls \<Longrightarrow> loc df ls = Inl KeyError"
  by (induction df ls rule: loc.induct) (simp_all split: sum.splits)

lemma loc_Inr:
  "loc df ls = Inr rs \<Longrightarrow> None \<notin> set ls \<and> rs = map (\<lambda>l. df ! the l) ls"
proof -
  assume a: "loc df ls = Inr rs"
  have n: "None \<notin> set ls"
  proof
    assume "None \<in> set ls"
    from loc_None [OF this, of df] a show False by simp
  qed
  from loc_Some [OF n, of df] a show ?thesis using n by simp
qed

lemma set_group_keys: "set (group_keys df) = github_username ` set df"
  by (simp add: group_keys_def)

lemma distinct_group_keys: "distinct (group_keys df)"
  by (simp add: group_keys_def)

lemma group_scores_mem:
  "(i, v) \<in> set (group_scores df k) \<longleftrightarrow> i < length df \<and> github_username (df ! i) = k \<and> v = accuracy (df ! i)"
  by (auto simp: group_scores_def)

lemma df_highest_Inr:
  assumes "df_highest df = Inr hi"
  shows "None \<notin> set (groupby_idxmax df)"
    and "hi = map (\<lambda>k. df ! the (idxmax (group_scores df k))) (group_keys df)"
  using loc_Inr [OF assms [unfolded df_highest_def]]
  by (simp_all add: groupby_idxmax_def comp_def)

lemma best_at_mem: "best_at xs i v \<Longrightarrow> (i, v) \<in> set xs"
  unfolding best_at_def by auto

lemma df_highest_key:
  assumes "df_highest df = Inr hi" and "k \<in> set (group_keys df)"
  shows "\<exists>i. idxmax (group_scores df k) = Some i \<and> i < length df
     \<and> github_username (df ! i) = k \<and> accuracy (df ! i) \<noteq> NaN
     \<and> best_at (group_scores df k) i (accuracy (df ! i))"
proof -
  have "idxmax (group_scores df k) \<in> set (groupby_idxmax df)"
    using assms(2) by (simp add: groupby_idxmax_def)
  with df_highest_Inr(1) [OF assms(1)] obtain i where i: "idxmax (group_scores df k) = Some i"
    by (cases "idxmax (group_scores df k)") auto
  from idxmax_Some [OF i] obtain v where v: "v \<noteq> NaN" "best_at (group_scores df k) i v"
    by blast
  from best_at_mem [OF v(2)] have "i < length df \<and> github_username (df ! i) = k \<and> v = accuracy (df ! i)"
    by (simp add: group_scores_mem)
  with i v show ?thesis by blast
qed

lemma df_highest_usernames:
  assumes "df_highest df = Inr hi"
  shows "map github_username hi = group_keys df"
proof -
  have "map github_username hi = map (\<lambda>k. github_username (df ! the (idxmax (group_scores df k)))) (group_keys df)"
    by (simp add: df_highest_Inr(2) [OF assms] comp_def)
  also have "\<dots> = map (\<lambda>k. k) (group_keys df)"
  proof (rule map_cong [OF refl])
    fix k assume "k \<in> set (group_keys df)"
    from df_highest_key [OF assms this] show "github_username (df ! the (idxmax (group_scores df k))) = k"
      by auto
  qed
  finally show ?thesis by simp
qed

lemma df_highest_no_nan:
  assumes "df_highest df = Inr hi" and "r \<in> set hi"
  shows "accuracy r \<noteq> NaN"
proof -
  from assms obtain k where k: "k \<in> set (group_keys df)" "r = df ! the (idxmax (group_scores df k))"
    by (auto simp: df_highest_Inr(2) [OF assms(1)])
  from df_highest_key [OF assms(1) k(1)] k(2) show ?thesis by auto
qed

lemma assign_rank_nth:
  "i < length df \<Longrightarrow> assign_rank df ! i = (df ! i)\<lparr>rank := int i + 1\<rparr>"
  by (simp add: assign_rank_def nth_enumerate_eq)

lemma length_assign_rank: "length (assign_rank df) = length df"
  by (simp add: assign_rank_def)

lemma assign_rank_usernames: "map github_username (assign_rank df) = map github_username df"
  by (rule nth_equalityI) (simp_all add: length_assign_rank assign_rank_nth)

lemma assign_rank_accuracy: "map accuracy (assign_rank df) = map accuracy df"
  by (rule nth_equalityI) (simp_all add: length_assign_rank assign_rank_nth)

lemma assign_rank_ranks: "map rank (assign_rank df) = map (\<lambda>i. int i + 1) [0..<length df]"
  by (rule nth_equalityI) (simp_all add: length_assign_rank assign_rank_nth)

lemma mset_nargsort_desc:
  assumes "argsort_ok argsort"
  shows "mset (nargsort_desc argsort items) = mset [0..<length items]"
proof -
  define nn where "nn = rev (filter (\<lambda>i. \<not> isnan (items ! i)) [0..<length items])"
  define ks where "ks = map (\<lambda>i. items ! i) nn"
  have "NaN \<notin> set ks"
    by (auto simp: ks_def nn_def isnan_def)
  with assms have p: "mset (argsort ks) = mset [0..<length ks]"
    by (simp add: argsort_ok_def)
  have "mset (map (\<lambda>j. nn ! j) (argsort ks)) = image_mset (\<lambda>j. nn ! j) (mset [0..<length ks])"
    using p by (metis mset_map)
  also have "\<dots> = mset (map (\<lambda>j. nn ! j) [0..<length nn])"
    by (simp add: ks_def)
  also have "\<dots> = mset nn"
    by (simp add: map_nth)
  finally have a: "mset (map (\<lambda>j. nn ! j) (argsort ks)) = mset nn" .
  have "nargsort_desc argsort items
      = rev (map (\<lambda>j. nn ! j) (argsort ks)) @ filter (\<lambda>i. isnan (items ! i)) [0..<length items]"
    by (simp add: nargsort_desc_def Let_def nn_def ks_def)
  then have "mset (nargsort_desc argsort items)
      = mset nn + mset (filter (\<lambda>i. isnan (items ! i)) [0..<length items])"
    using a by simp
  also have "\<dots> = filter_mset (\<lambda>i. \<not> isnan (items ! i)) (mset [0..<length items])
      + filter_mset (\<lambda>i. isnan (items ! i)) (mset [0..<length items])"
    by (simp only: nn_def mset_rev mset_filter)
  also have "\<dots> = mset [0..<length items]"
    by (subst add.commute) (rule multiset_partition [symmetric])
  finally show ?thesis .
qed

lemma mset_sort_values:
  assumes "argsort_ok argsort"
  shows "mset (sort_values argsort df) = mset df"
proof -
  have "mset (sort_values argsort df) = image_mset (\<lambda>i. df ! i) (mset (nargsort_desc argsort (map accuracy df)))"
    by (simp add: sort_values_def)
  also have "\<dots> = mset (map (\<lambda>i. df ! i) [0..<length df])"
    by (simp add: mset_nargsort_desc [OF assms])
  finally show ?thesis by (simp add: map_nth)
qed

subsection \<open>The insertion sorts meet the contract\<close>

lemma mset_insert_index: "mset (insert_index first ks i js) = add_mset i (mset js)"
  by (induction js) simp_all

lemma set_insert_index: "set (insert_index first ks i js) = insert i (set js)"
  by (induction js) auto

lemma mset_foldr_insert_index: "mset (foldr (insert_index first ks) is []) = mset is"
  by (induction "is") (simp_all add: mset_insert_index)

lemma sorted_insert_index:
  assumes f1: "\<And>a b. a \<noteq> NaN \<Longrightarrow> b \<noteq> NaN \<Longrightarrow> first a b \<Longrightarrow> fle a b"
      and f2: "\<And>a b. a \<noteq> NaN \<Longrightarrow> b \<noteq> NaN \<Longrightarrow> \<not> first a b \<Longrightarrow> fle b a"
      and nan: "NaN \<notin> set ks"
      and i: "i < length ks"
  shows "set js \<subseteq> {..<length ks} \<Longrightarrow> sorted_wrt (\<lambda>a b. fle (ks ! a) (ks ! b)) js
     \<Longrightarrow> sorted_wrt (\<lambda>a b. fle (ks ! a) (ks ! b)) (insert_index first ks i js)"
proof (induction js)
  case Nil
  then show ?case by simp
next
  case (Cons j js)
  have ki: "ks ! i \<noteq> NaN" using nan i by (metis nth_mem)
  have kj: "ks ! j \<noteq> NaN" using nan Cons.prems(1) by (metis insert_subset lessThan_iff list.simps(15) nth_mem)
  show ?case
  proof (cases "first (ks ! i) (ks ! j)")
    case True
    have a: "fle (ks ! i) (ks ! j)" by (rule f1 [OF ki kj True])
    have "\<forall>x \<in> set js. fle (ks ! i) (ks ! x)"
      using Cons.prems(2) a fle_trans by auto
    with True a Cons.prems(2) show ?thesis by simp
  next
    case False
    have a: "fle (ks ! j) (ks ! i)" by (rule f2 [OF ki kj False])
    have "sorted_wrt (\<lambda>a b. fle (ks ! a) (ks ! b)) (insert_index first ks i js)"
      using Cons by simp
    with False a Cons.prems(2) show ?thesis
      by (simp add: set_insert_index)
  qed
qed

lemma insertion_argsort_ok:
  assumes f1: "\<And>a b. a \<noteq> NaN \<Longrightarrow> b \<noteq> NaN \<Longrightarrow> first a b \<Longrightarrow> fle a b"
      and f2: "\<And>a b. a \<noteq> NaN \<Longrightarrow> b \<noteq> NaN \<Longrightarrow> \<not> first a b \<Longrightarrow> fle b a"
  shows "argsort_ok (insertion_argsort first)"
proof -
  have "sorted_wrt (\<lambda>a b. fle (ks ! a) (ks ! b)) (foldr (insert_index first ks) is [])
        \<and> set (foldr (insert_index first ks) is []) = set is"
    if nan: "NaN \<notin> set ks" and "set is \<subseteq> {..<length ks}" for ks "is"
    using that(2)
  proof (induction "is")
    case Nil
    then show ?case by simp
  next
    case (Cons i "is")
    then have "i < length ks" and sub: "set is \<subseteq> {..<length ks}" by auto
    from Cons.IH [OF sub] sorted_insert_index [OF f1 f2 nan \<open>i < length ks\<close>, where js = "foldr (insert_index first ks) is []"] sub
    show ?case by (simp add: set_insert_index)
  qed
  note main = this
  show ?thesis
    unfolding argsort_ok_def insertion_argsort_def
  proof (intro allI impI conjI)
    fix ks :: "pyfloat list"
    assume nan: "NaN \<notin> set ks"
    show "mset (foldr (insert_index first ks) [0..<length ks] []) = mset [0..<length ks]"
      by (rule mset_foldr_insert_index)
    have "set [0..<length ks] \<subseteq> {..<length ks}" by auto
    from main [OF nan this]
    show "sorted_wrt fle (map (\<lambda>i. ks ! i) (foldr (insert_index first ks) [0..<length ks] []))"
      by (simp add: sorted_wrt_map)
  qed
qed

lemma stable_argsort_ok: "argsort_ok stable_argsort"
  unfolding stable_argsort_def
  by (rule insertion_argsort_ok) (simp_all add: fle_def flt_asym)




subsection \<open>A document for the scenarios\<close>

definition table_head :: string where
  "table_head =
     ''| Rank | Profile Image | GitHub Username | Solution | Accuracy % |'' @ [newline]
     @ ''|-----:|:--------------|:----------------|:---------|-----------:|''"

definition scenario3_doc :: string where
  "scenario3_doc =
     ''# Leaderboard'' @ [newline] @ start_marker @ table_head @ [newline]
     @ ''| 1 | img | [alice](https://github.com/alice) | [base](a.py) | 90.0 |'' @ [newline]
     @ ''| 2 | img | [bob](https://github.com/bob) | [base](b.py) | 85.0 |''
     @ end_marker @ [newline]"

lemma scenario3_rows:
  "extracted_rows scenario3_doc =
     [('' 1 '', '' img '', '' [alice](https://github.com/alice) '', '' [base](a.py) '', '' 90.0 ''),
      ('' 2 '', '' img '', '' [bob](https://github.com/bob) '', '' [base](b.py) '', '' 85.0 '')]"
  by code_simp

lemma scenario3_frame:
  "read_frame (extracted_rows scenario3_doc) =
     Inr [\<lparr>rank = 1, profile_image = ''img'', github_username = ''[alice](https://github.com/alice)'',
            solution = ''[base](a.py)'', accuracy = Fin 900 (- 1)\<rparr>,
          \<lparr>rank = 2, profile_image = ''img'', github_username = ''[bob](https://github.com/bob)'',
            solution = ''[base](b.py)'', accuracy = Fin 850 (- 1)\<rparr>]"
  unfolding scenario3_rows by code_simp

lemma scenario3_table:
  "df_sorted stable_argsort scenario3_doc ''p'' (Fin 850 (- 1)) ''carol'' =
     Inr [\<lparr>rank = 1, profile_image = ''img'', github_username = ''[alice](https://github.com/alice)'',
            solution = ''[base](a.py)'', accuracy = Fin 900 (- 1)\<rparr>,
          \<lparr>rank = 2, profile_image = ''img'', github_username = ''[bob](https://github.com/bob)'',
            solution = ''[base](b.py)'', accuracy = Fin 850 (- 1)\<rparr>,
          new_entry 2 ''p'' (Fin 850 (- 1)) ''carol''\<lparr>rank := 3\<rparr>]"
  unfolding df_sorted_def scenario3_frame by code_simp

section \<open>The claims\<close>

lemma df_sorted_Inr:
  assumes "df_sorted argsort content prompt_name acc github_user = Inr table"
  obtains df hi where "read_frame (extracted_rows content) = Inr df"
    and "df_highest (df @ [new_entry (length df) prompt_name acc github_user]) = Inr hi"
    and "table = assign_rank (sort_values argsort hi)"
  using assms unfolding df_sorted_def merge_def
  by (auto split: sum.splits)

lemma sort_values_desc:
  assumes ok: "argsort_ok argsort" and nan: "NaN \<notin> accuracy ` set df"
  shows "sorted_wrt (\<lambda>a b. fle b a) (map accuracy (sort_values argsort df))"
proof -
  define items where "items = map accuracy df"
  define nn where "nn = rev [0..<length items]"
  define ks where "ks = map (\<lambda>i. items ! i) nn"
  have all: "\<forall>i < length items. \<not> isnan (items ! i)"
  proof (intro allI impI)
    fix i assume "i < length items"
    then have "i < length df" by (simp add: items_def)
    then have "accuracy (df ! i) \<in> accuracy ` set df" by simp
    with nan have "accuracy (df ! i) \<noteq> NaN" by metis
    with \<open>i < length df\<close> show "\<not> isnan (items ! i)" by (simp add: items_def isnan_def)
  qed
  then have f1: "filter (\<lambda>i. \<not> isnan (items ! i)) [0..<length items] = [0..<length items]"
    and f2: "filter (\<lambda>i. isnan (items ! i)) [0..<length items] = []"
    by (auto simp: filter_empty_conv)
  have n: "nargsort_desc argsort items = rev (map (\<lambda>j. nn ! j) (argsort ks))"
    by (simp add: nargsort_desc_def Let_def f1 f2 nn_def ks_def)
  have kn: "NaN \<notin> set ks"
    using all by (auto simp: ks_def nn_def isnan_def)
  with ok have p: "mset (argsort ks) = mset [0..<length ks]"
    and s: "sorted_wrt fle (map (\<lambda>i. ks ! i) (argsort ks))"
    by (simp_all add: argsort_ok_def)
  from p have "set (argsort ks) = set [0..<length ks]" by (rule mset_eq_setD)
  then have r: "\<forall>j \<in> set (argsort ks). j < length nn" by (simp add: ks_def)
  have "map accuracy (sort_values argsort df) = map (\<lambda>i. items ! i) (nargsort_desc argsort items)"
  proof -
    have "set (nargsort_desc argsort items) = set [0..<length items]"
      using mset_nargsort_desc [OF ok, of items] by (rule mset_eq_setD)
    then have "\<forall>i \<in> set (nargsort_desc argsort items). i < length df"
      by (simp add: items_def)
    then show ?thesis
      by (simp add: sort_values_def items_def flip: items_def) (simp add: items_def)
  qed
  also have "\<dots> = rev (map (\<lambda>j. items ! (nn ! j)) (argsort ks))"
    by (simp add: n rev_map comp_def)
  also have "map (\<lambda>j. items ! (nn ! j)) (argsort ks) = map (\<lambda>i. ks ! i) (argsort ks)"
    using r by (simp add: ks_def)
  finally have "map accuracy (sort_values argsort df) = rev (map (\<lambda>i. ks ! i) (argsort ks))" .
  with s show ?thesis by (simp add: sorted_wrt_rev)
qed



text \<open>
  C2. For every document whose rows convert and every submission, the ranks of the merged
  frame are 1, 2, ..., N in this order, N being the number of different user cells among
  the rows and the new entry, and the score of a record is never below the score of a
  record after it (no score is \<open>nan\<close>).
\<close>

theorem merged_ranks_dense_descending:
  assumes "argsort_ok argsort"
    and "read_frame (extracted_rows content) = Inr df"
    and "df_sorted argsort content prompt_name acc github_user = Inr table"
  shows "map rank table = map int [1..<Suc (length table)]
    \<and> length table = card (github_username ` set (df @ [new_entry (length df) prompt_name acc github_user]))
    \<and> (\<forall>i j. i < j \<and> j < length table \<longrightarrow> fle (accuracy (table ! j)) (accuracy (table ! i)))"
proof -
  let ?e = "new_entry (length df) prompt_name acc github_user"
  from assms(3) assms(2) obtain hi where
    hi: "df_highest (df @ [?e]) = Inr hi"
    and t: "table = assign_rank (sort_values argsort hi)"
    by (auto elim!: df_sorted_Inr)
  have l: "length table = length hi"
    using mset_sort_values [OF assms(1), of hi] by (simp add: t length_assign_rank) (metis size_mset)
  have "map rank table = map (\<lambda>i. int i + 1) [0..<length table]"
    by (simp add: t assign_rank_ranks length_assign_rank)
  also have "\<dots> = map int (map Suc [0..<length table])"
    by simp
  also have "map Suc [0..<length table] = [1..<Suc (length table)]"
    by (simp only: map_Suc_upt One_nat_def)
  finally have a: "map rank table = map int [1..<Suc (length table)]" .
  have "length hi = length (group_keys (df @ [?e]))"
    using df_highest_usernames [OF hi] by (metis length_map)
  also have "\<dots> = card (set (group_keys (df @ [?e])))"
    by (simp add: distinct_card distinct_group_keys)
  finally have b: "length table = card (github_username ` set (df @ [?e]))"
    by (simp only: l set_group_keys)
  have "NaN \<notin> accuracy ` set hi"
    using df_highest_no_nan [OF hi] by (metis imageE)
  from sort_values_desc [OF assms(1) this]
  have "sorted_wrt (\<lambda>a b. fle b a) (map accuracy table)"
    by (simp add: t assign_rank_accuracy)
  then have c: "\<forall>i j. i < j \<and> j < length table \<longrightarrow> fle (accuracy (table ! j)) (accuracy (table ! i))"
    by (auto simp: sorted_wrt_iff_nth_less)
  from a b c show ?thesis by blast
qed

theorem merged_ranks_dense_descending_witness:
  "argsort_ok stable_argsort
   \<and> read_frame (extracted_rows scenario3_doc) =
       Inr [\<lparr>rank = 1, profile_image = ''img'', github_username = ''[alice](https://github.com/alice)'',
              solution = ''[base](a.py)'', accuracy = Fin 900 (- 1)\<rparr>,
            \<lparr>rank = 2, profile_image = ''img'', github_username = ''[bob](https://github.com/bob)'',
              solution = ''[base](b.py)'', accuracy = Fin 850 (- 1)\<rparr>]
   \<and> map rank (projr (df_sorted stable_argsort scenario3_doc ''p'' (Fin 850 (- 1)) ''carol'')) = [1, 2, 3]
   \<and> map accuracy (projr (df_sorted stable_argsort scenario3_doc ''p'' (Fin 850 (- 1)) ''carol''))
       = [Fin 900 (- 1), Fin 850 (- 1), Fin 850 (- 1)]"
  using merged_ranks_dense_descending [OF stable_argsort_ok scenario3_frame scenario3_table]
    stable_argsort_ok scenario3_frame scenario3_table
  by (simp add: new_entry_def)

subsection \<open>Deduplication\<close>

lemma group_labels_sorted: "sorted_wrt (<) (map fst (group_scores df k))"
proof -
  have "map fst (group_scores df k) = filter (\<lambda>i. github_username (df ! i) = k) [0..<length df]"
    by (simp add: group_scores_def comp_def)
  then show ?thesis
    by (simp add: sorted_wrt_filter)
qed

lemma best_at_group:
  assumes b: "best_at (group_scores df k) i v"
  shows "\<forall>j < length df. github_username (df ! j) = k \<longrightarrow> \<not> flt v (accuracy (df ! j))"
    and "\<forall>j < i. github_username (df ! j) = k \<longrightarrow> accuracy (df ! j) = NaN \<or> flt (accuracy (df ! j)) v"
proof -
  from b obtain ys zs where h: "group_scores df k = ys @ (i, v) # zs"
      "\<forall>u \<in> snd ` set ys. u = NaN \<or> flt u v" "\<forall>u \<in> snd ` set zs. \<not> flt v u"
    unfolding best_at_def by blast
  from group_labels_sorted [of df k] have s: "\<forall>p \<in> set zs. i < fst p"
    by (simp add: h(1) sorted_wrt_append)
  from best_at_mem [OF b] have il: "i < length df"
    by (simp add: group_scores_mem)
  have mem: "(j, accuracy (df ! j)) \<in> set ys \<or> j = i \<and> accuracy (df ! j) = v \<or> (j, accuracy (df ! j)) \<in> set zs"
    if "j < length df" "github_username (df ! j) = k" for j
  proof -
    from that have "(j, accuracy (df ! j)) \<in> set (group_scores df k)"
      by (simp add: group_scores_mem)
    then show ?thesis by (auto simp: h(1))
  qed
  show "\<forall>j < length df. github_username (df ! j) = k \<longrightarrow> \<not> flt v (accuracy (df ! j))"
  proof (intro allI impI)
    fix j assume j: "j < length df" "github_username (df ! j) = k"
    from mem [OF j] consider "(j, accuracy (df ! j)) \<in> set ys" | "accuracy (df ! j) = v"
      | "(j, accuracy (df ! j)) \<in> set zs" by blast
    then show "\<not> flt v (accuracy (df ! j))"
    proof cases
      case 1
      then have "accuracy (df ! j) \<in> snd ` set ys" by force
      with h(2) have "accuracy (df ! j) = NaN \<or> flt (accuracy (df ! j)) v" by blast
      then show ?thesis using flt_nan(1) flt_asym by metis
    next
      case 2
      then show ?thesis by (simp add: flt_irrefl)
    next
      case 3
      then have "accuracy (df ! j) \<in> snd ` set zs" by force
      with h(3) show ?thesis by blast
    qed
  qed
  show "\<forall>j < i. github_username (df ! j) = k \<longrightarrow> accuracy (df ! j) = NaN \<or> flt (accuracy (df ! j)) v"
  proof (intro allI impI)
    fix j assume j: "j < i" "github_username (df ! j) = k"
    with il have jl: "j < length df" by simp
    from mem [OF jl j(2)] j(1) s have "(j, accuracy (df ! j)) \<in> set ys" by force
    then have "accuracy (df ! j) \<in> snd ` set ys" by force
    with h(2) show "accuracy (df ! j) = NaN \<or> flt (accuracy (df ! j)) v" by blast
  qed
qed

lemma filter_key_single:
  "distinct (map f xs) \<Longrightarrow> x \<in> set xs \<Longrightarrow> filter (\<lambda>r. f r = f x) xs = [x]"
proof (induction xs)
  case Nil
  then show ?case by simp
next
  case (Cons y xs)
  show ?case
  proof (cases "y = x")
    case True
    with Cons.prems(1) have "f x \<notin> f ` set xs" by simp
    then have "\<forall>r \<in> set xs. f r \<noteq> f x" by (metis image_eqI)
    then have "filter (\<lambda>r. f r = f x) xs = []" by (simp add: filter_empty_conv)
    with True show ?thesis by simp
  next
    case False
    with Cons.prems have x: "x \<in> set xs" and "f y \<noteq> f x" by auto
    with Cons show ?thesis by simp
  qed
qed

definition tie_doc :: string where
  "tie_doc =
     start_marker @ table_head @ [newline]
     @ ''| 1 | img | [alice](https://github.com/alice) | [base](a.py) | 85.0 |''
     @ end_marker @ [newline]"

definition old_alice :: row where
  "old_alice =
     \<lparr>rank = 1, profile_image = ''img'', github_username = ''[alice](https://github.com/alice)'',
      solution = ''[base](a.py)'', accuracy = Fin 850 (- 1)\<rparr>"

lemma tie_frame: "read_frame (extracted_rows tie_doc) = Inr [old_alice]"
  by code_simp

lemma tie_highest:
  "df_highest [old_alice, new_entry 1 ''p'' (Fin 850 (- 1)) ''alice''] = Inr [old_alice]"
  by code_simp

lemma tie_table:
  "df_sorted stable_argsort tie_doc ''p'' (Fin 850 (- 1)) ''alice'' = Inr [old_alice]"
  unfolding df_sorted_def tie_frame by code_simp

text \<open>
  C4, as stated, fails. The table holds alice with 85.0 and the solution
  \<^verbatim>\<open>[base](a.py)\<close>; alice submits \<^verbatim>\<open>p\<close> and scores 85.0 again. The row kept is the old
  one: the entry submitted later, with the same score, does not replace it.
\<close>

theorem later_tie_not_kept:
  "read_frame (extracted_rows tie_doc) = Inr [old_alice]
   \<and> github_username (new_entry 1 ''p'' (Fin 850 (- 1)) ''alice'') = github_username old_alice
   \<and> accuracy (new_entry 1 ''p'' (Fin 850 (- 1)) ''alice'') = accuracy old_alice
   \<and> solution (new_entry 1 ''p'' (Fin 850 (- 1)) ''alice'') \<noteq> solution old_alice
   \<and> df_sorted stable_argsort tie_doc ''p'' (Fin 850 (- 1)) ''alice'' = Inr [old_alice]"
  using tie_frame tie_table by (simp add: new_entry_def old_alice_def)

text \<open>
  C4, amended. Deduplication (\<^verbatim>\<open>df.loc[df.groupby(...)[...].idxmax()]\<close>) keeps, for every
  user cell \<open>k\<close> of the input rows, exactly one row: a row of \<open>k\<close> whose score is a number
  and is not exceeded by any row of \<open>k\<close>, and among those the one that comes first in the
  input: every earlier row of \<open>k\<close> has a strictly smaller score, or \<open>nan\<close>.
\<close>

theorem dedup_keeps_first_maximum:
  assumes "df_highest df = Inr hi" and "k \<in> github_username ` set df"
  shows "\<exists>i < length df.
           filter (\<lambda>r. github_username r = k) hi = [df ! i]
           \<and> github_username (df ! i) = k
           \<and> accuracy (df ! i) \<noteq> NaN
           \<and> (\<forall>j < length df. github_username (df ! j) = k \<longrightarrow> \<not> flt (accuracy (df ! i)) (accuracy (df ! j)))
           \<and> (\<forall>j < i. github_username (df ! j) = k \<longrightarrow>
                 accuracy (df ! j) = NaN \<or> flt (accuracy (df ! j)) (accuracy (df ! i)))"
proof -
  from assms(2) have k: "k \<in> set (group_keys df)" by (simp add: set_group_keys)
  from df_highest_key [OF assms(1) k] obtain i where i:
      "idxmax (group_scores df k) = Some i" "i < length df" "github_username (df ! i) = k"
      "accuracy (df ! i) \<noteq> NaN" "best_at (group_scores df k) i (accuracy (df ! i))"
    by blast
  have "df ! i \<in> set hi"
    using k i(1) by (simp add: df_highest_Inr(2) [OF assms(1)] image_iff) (metis option.sel)
  moreover have "distinct (map github_username hi)"
    by (simp add: df_highest_usernames [OF assms(1)] distinct_group_keys)
  ultimately have "filter (\<lambda>r. github_username r = github_username (df ! i)) hi = [df ! i]"
    by (rule filter_key_single [rotated])
  then have f: "filter (\<lambda>r. github_username r = k) hi = [df ! i]"
    by (simp add: i(3))
  from f i(2,3,4) best_at_group [OF i(5)] show ?thesis by blast
qed

theorem dedup_keeps_first_maximum_witness:
  "df_highest [old_alice, new_entry 1 ''p'' (Fin 850 (- 1)) ''alice''] = Inr [old_alice]
   \<and> ''[alice](https://github.com/alice)''
       \<in> github_username ` set [old_alice, new_entry 1 ''p'' (Fin 850 (- 1)) ''alice'']
   \<and> (\<exists>i < length [old_alice, new_entry 1 ''p'' (Fin 850 (- 1)) ''alice''].
         filter (\<lambda>r. github_username r = ''[alice](https://github.com/alice)'') [old_alice]
           = [[old_alice, new_entry 1 ''p'' (Fin 850 (- 1)) ''alice''] ! i])"
proof -
  have k: "''[alice](https://github.com/alice)''
       \<in> github_username ` set [old_alice, new_entry 1 ''p'' (Fin 850 (- 1)) ''alice'']"
    by (simp add: old_alice_def)
  from dedup_keeps_first_maximum [OF tie_highest k] tie_highest k show ?thesis
    by blast
qed

text \<open>
  C10. The key of the deduplication is the whole stripped text of the
  \<^verbatim>\<open>GitHub Username\<close> cell. Two input rows (table rows or the new entry) whose cells are
  different strings are two users: the merged frame has a record for each of the two
  cells, whatever the cells link to.
\<close>

theorem different_cells_both_kept:
  assumes "argsort_ok argsort"
    and "read_frame (extracted_rows content) = Inr df"
    and "df_sorted argsort content prompt_name acc github_user = Inr table"
    and "r1 \<in> set (df @ [new_entry (length df) prompt_name acc github_user])"
    and "r2 \<in> set (df @ [new_entry (length df) prompt_name acc github_user])"
    and "github_username r1 \<noteq> github_username r2"
  shows "\<exists>t1 t2. t1 \<in> set table \<and> t2 \<in> set table \<and> t1 \<noteq> t2
           \<and> github_username t1 = github_username r1 \<and> github_username t2 = github_username r2"
proof -
  let ?df1 = "df @ [new_entry (length df) prompt_name acc github_user]"
  from assms(3) assms(2) obtain hi where
    hi: "df_highest ?df1 = Inr hi"
    and t: "table = assign_rank (sort_values argsort hi)"
    by (auto elim!: df_sorted_Inr)
  have "mset (map github_username table) = image_mset github_username (mset (sort_values argsort hi))"
    by (simp add: t assign_rank_usernames)
  then have "mset (map github_username table) = mset (map github_username hi)"
    by (simp add: mset_sort_values [OF assms(1)])
  then have "set (map github_username table) = set (map github_username hi)"
    by (rule mset_eq_setD)
  then have s: "github_username ` set table = github_username ` set ?df1"
    by (simp only: df_highest_usernames [OF hi] set_group_keys set_map)
  from assms(4) have "github_username r1 \<in> github_username ` set table"
    unfolding s by (rule imageI)
  then obtain t1 where t1: "t1 \<in> set table" "github_username t1 = github_username r1" by force
  from assms(5) have "github_username r2 \<in> github_username ` set table"
    unfolding s by (rule imageI)
  then obtain t2 where t2: "t2 \<in> set table" "github_username t2 = github_username r2" by force
  from t1 t2 assms(6) have "t1 \<noteq> t2" by metis
  with t1 t2 show ?thesis by blast
qed

lemma markup_table:
  "df_sorted stable_argsort tie_doc ''p'' (Fin 700 (- 1)) ''Alice'' =
     Inr [old_alice, new_entry 1 ''p'' (Fin 700 (- 1)) ''Alice''\<lparr>rank := 2\<rparr>]"
  unfolding df_sorted_def tie_frame by code_simp

theorem different_cells_both_kept_witness:
  "argsort_ok stable_argsort
   \<and> read_frame (extracted_rows tie_doc) = Inr [old_alice]
   \<and> github_username old_alice = ''[alice](https://github.com/alice)''
   \<and> github_username (new_entry 1 ''p'' (Fin 700 (- 1)) ''Alice'') = ''[Alice](https://github.com/Alice)''
   \<and> (\<exists>t1 t2. t1 \<in> set [old_alice, new_entry 1 ''p'' (Fin 700 (- 1)) ''Alice''\<lparr>rank := 2\<rparr>]
         \<and> t2 \<in> set [old_alice, new_entry 1 ''p'' (Fin 700 (- 1)) ''Alice''\<lparr>rank := 2\<rparr>]
         \<and> t1 \<noteq> t2
         \<and> github_username t1 = ''[alice](https://github.com/alice)''
         \<and> github_username t2 = ''[Alice](https://github.com/Alice)'')"
proof -
  have a: "github_username old_alice = ''[alice](https://github.com/alice)''"
    by (simp add: old_alice_def)
  have b: "github_username (new_entry 1 ''p'' (Fin 700 (- 1)) ''Alice'') = ''[Alice](https://github.com/Alice)''"
    by (simp add: new_entry_def)
  have "old_alice \<in> set ([old_alice] @ [new_entry (length [old_alice]) ''p'' (Fin 700 (- 1)) ''Alice''])"
    and "new_entry 1 ''p'' (Fin 700 (- 1)) ''Alice''
          \<in> set ([old_alice] @ [new_entry (length [old_alice]) ''p'' (Fin 700 (- 1)) ''Alice''])"
    and "github_username old_alice \<noteq> github_username (new_entry 1 ''p'' (Fin 700 (- 1)) ''Alice'')"
    by (simp_all add: new_entry_def old_alice_def)
  from different_cells_both_kept [OF stable_argsort_ok tie_frame markup_table this]
  show ?thesis
    using stable_argsort_ok tie_frame a b by simp
qed

subsection \<open>Markers and the written content\<close>

lemma find_from_found:
  "find_from n sub s = int m \<Longrightarrow>
     n \<le> m \<and> m - n \<le> length s \<and> prefix sub (drop (m - n) s)
     \<and> (\<forall>k < m - n. \<not> prefix sub (drop k s))"
proof (induction n sub s rule: find_from.induct)
  case (1 i sub)
  then show ?case by (simp split: if_splits)
next
  case (2 i sub c s)
  show ?case
  proof (cases "prefix sub (c # s)")
    case True
    with 2(2) show ?thesis by simp
  next
    case False
    with 2 have ih: "Suc i \<le> m \<and> m - Suc i \<le> length s \<and> prefix sub (drop (m - Suc i) s)
       \<and> (\<forall>k < m - Suc i. \<not> prefix sub (drop k s))"
      by simp
    then have e: "m - i = Suc (m - Suc i)" by arith
    have "\<not> prefix sub (drop k (c # s))" if "k < m - i" for k
    proof (cases k)
      case 0
      with False show ?thesis by simp
    next
      case (Suc k')
      with that e ih show ?thesis by simp
    qed
    with ih e show ?thesis by simp
  qed
qed

lemma find_from_absent: "find_from n sub s = - 1 \<Longrightarrow> k \<le> length s \<Longrightarrow> \<not> prefix sub (drop k s)"
proof (induction n sub s arbitrary: k rule: find_from.induct)
  case (1 i sub)
  then show ?case by (simp split: if_splits)
next
  case (2 i sub c s)
  then have np: "\<not> prefix sub (c # s)" and r: "find_from (Suc i) sub s = - 1"
    by (simp_all split: if_splits)
  show ?case
  proof (cases k)
    case 0
    with np show ?thesis by simp
  next
    case (Suc k')
    with 2(1) [OF np r, of k'] 2(3) show ?thesis by simp
  qed
qed

lemma py_find_found:
  assumes "py_find s sub = int m"
  shows "m + length sub \<le> length s" and "take (m + length sub) s = take m s @ sub"
    and "\<exists>rest. drop m s = sub @ rest" and "\<forall>k < m. \<not> prefix sub (drop k s)"
proof -
  from find_from_found [OF assms [unfolded py_find_def]]
  have m: "m \<le> length s" and p: "prefix sub (drop m s)" and f: "\<forall>k < m. \<not> prefix sub (drop k s)"
    by simp_all
  from p obtain rest where r: "drop m s = sub @ rest" by (auto simp: prefix_def)
  then show "\<exists>rest. drop m s = sub @ rest" ..
  from r have "length (drop m s) = length sub + length rest" by simp
  with m show l: "m + length sub \<le> length s" by simp
  have "take (m + length sub) s = take m s @ take (length sub) (drop m s)"
    by (simp add: take_add)
  then show "take (m + length sub) s = take m s @ sub" by (simp add: r)
  from f show "\<forall>k < m. \<not> prefix sub (drop k s)" .
qed




definition alice_table :: string where
  "alice_table =
     ''|   Rank | Profile Image   | GitHub Username                   | Solution     |   Accuracy % |'' @ [newline]
     @ ''|-------:|:----------------|:----------------------------------|:-------------|-------------:|'' @ [newline]
     @ ''|      1 | img             | [alice](https://github.com/alice) | [base](a.py) |           85 |''"


lemma alice_markdown: "to_markdown [old_alice] = Inr alice_table"
  by code_simp




subsection \<open>Cells that do not convert\<close>

















subsection \<open>Documents without markers\<close>

lemma find_from_range: "find_from n sub s = - 1 \<or> (\<exists>m. find_from n sub s = int m)"
  by (induction n sub s rule: find_from.induct) auto

lemma py_find_range: "py_find s sub = - 1 \<or> (\<exists>m. py_find s sub = int m)"
  unfolding py_find_def by (rule find_from_range)

lemma length_end_marker: "length end_marker = 27"
  by (simp add: end_marker_def)

lemma length_start_marker: "length start_marker = 29"
  by (simp add: start_marker_def)

lemma empty_region:
  assumes "py_find content start_marker = - 1
     \<or> (0 \<le> py_find content end_marker \<and> py_find content end_marker \<le> py_find content start_marker)"
  shows "extracted_rows content = []"
proof -
  let ?n = "length content"
  have "slice content (py_find content start_marker) (py_find content end_marker) = []"
    using assms
  proof
    assume s: "py_find content start_marker = - 1"
    from py_find_range [of content end_marker] show ?thesis
    proof
      assume "py_find content end_marker = - 1"
      with s show ?thesis by (simp add: slice_def)
    next
      assume "\<exists>m. py_find content end_marker = int m"
      then obtain j where j: "py_find content end_marker = int j" ..
      from py_find_found(1) [OF j] have "j + 27 \<le> ?n" by (simp add: length_end_marker)
      then show ?thesis
        by (simp add: slice_def s j clamp_index_def)
    qed
  next
    assume a: "0 \<le> py_find content end_marker \<and> py_find content end_marker \<le> py_find content start_marker"
    with py_find_range [of content end_marker] obtain j where j: "py_find content end_marker = int j"
      by auto
    from a j py_find_range [of content start_marker] obtain i where i: "py_find content start_marker = int i"
      by auto
    from a i j have "j \<le> i" by simp
    moreover from py_find_found(1) [OF i] have "i \<le> ?n" by simp
    ultimately show ?thesis
      by (simp add: slice_def i j clamp_index_def)
  qed
  then show ?thesis by (simp add: extracted_rows_def)
qed

lemma region_without_end_marker:
  assumes "py_find content end_marker = - 1" and "0 \<le> py_find content start_marker"
  shows "extracted_rows content = drop 2 (re_findall (butlast (drop (nat (py_find content start_marker)) content)))"
proof -
  from assms(2) py_find_range [of content start_marker] obtain i where i: "py_find content start_marker = int i"
    by auto
  from py_find_found(1) [OF i] have "i + 29 \<le> length content" by (simp add: length_start_marker)
  then have "nat (int (length content) - 1) = length content - 1" by arith
  then have "slice content (int i) (- 1) = butlast (drop i content)"
    using \<open>i + 29 \<le> length content\<close>
    by (simp add: slice_def clamp_index_def butlast_conv_take)
  then show ?thesis by (simp add: extracted_rows_def assms(1) i)
qed

lemma more_generic_TBool: "more_generic TBool t = t"
  by (cases t) (simp_all add: more_generic_def)

lemma text_column_single: "\<exists>n t. text_column [s] = Inr (n, [t])"
proof (cases "type_of_text s = TFloat")
  case True
  then have "isnumber s" by (simp add: type_of_text_def split: if_splits)
  then obtain v where "py_float s = Some v" by (auto simp: isnumber_def split: option.splits)
  with True have "text_column [s] = Inr (True, [format_g v])"
    by (simp add: text_column_def column_type_def more_generic_TBool format_text_def)
  then show ?thesis by blast
next
  case False
  then have "text_column [s] = Inr (type_of_text s = TInt, [s])"
    by (simp add: text_column_def column_type_def more_generic_TBool format_text_def)
  then show ?thesis by blast
qed

lemma to_markdown_single: "\<exists>t. to_markdown [r] = Inr t"
proof -
  from text_column_single obtain n2 t2 where 2: "text_column [profile_image r] = Inr (n2, [t2])" by blast
  from text_column_single obtain n3 t3 where 3: "text_column [github_username r] = Inr (n3, [t3])" by blast
  from text_column_single obtain n4 t4 where 4: "text_column [solution r] = Inr (n4, [t4])" by blast
  show ?thesis by (simp add: to_markdown_def 2 3 4)
qed

lemma argsort_single:
  assumes "argsort_ok argsort" and "v \<noteq> NaN"
  shows "argsort [v] = [0]"
proof -
  from assms have "mset (argsort [v]) = mset [0]" by (simp add: argsort_ok_def)
  then show ?thesis by (metis mset_single_iff_right)
qed

lemma merge_single:
  assumes "argsort_ok argsort" and "accuracy r \<noteq> NaN"
  shows "merge argsort [] r = Inr [r\<lparr>rank := 1\<rparr>]"
proof -
  have g: "group_keys [r] = [github_username r]" by (simp add: group_keys_def)
  have s: "group_scores [r] (github_username r) = [(0, accuracy r)]" by (simp add: group_scores_def)
  have h: "df_highest [r] = Inr [r]"
    using assms(2) by (simp add: df_highest_def groupby_idxmax_def g s isnan_def)
  have "nargsort_desc argsort [accuracy r] = [0]"
    using assms(2) by (simp add: nargsort_desc_def Let_def isnan_def argsort_single [OF assms])
  then have "sort_values argsort [r] = [r]" by (simp add: sort_values_def)
  with h show ?thesis by (simp add: merge_def assign_rank_def)
qed

definition no_end_doc :: string where
  "no_end_doc =
     start_marker @ table_head @ [newline]
     @ ''| 1 | img | [alice](https://github.com/alice) | [base](a.py) | 85.0 |'' @ [newline]"

lemma no_end_frame: "read_frame (extracted_rows no_end_doc) = Inr [old_alice]"
  by code_simp

lemma no_end_table:
  "df_sorted stable_argsort no_end_doc ''p'' (Fin 800 (- 1)) ''alice'' = Inr [old_alice]"
  unfolding df_sorted_def no_end_frame by code_simp

lemma no_end_update:
  "generate_leaderboard stable_argsort ''p'' (Fin 800 (- 1)) ''alice'' no_end_doc
     = (None, start_marker @ alice_table @ [newline])"
  unfolding generate_leaderboard_def no_end_table sum.case alice_markdown
  by code_simp

text \<open>
  C3, as stated, fails. This document has the begin marker and no end marker. Nothing is
  raised: \<^verbatim>\<open>find\<close> answers \<open>-1\<close>, the region is \<^verbatim>\<open>content[0:-1]\<close>, and the file is
  written anew.
\<close>

theorem missing_end_marker_is_written:
  "py_find no_end_doc start_marker = 0
   \<and> py_find no_end_doc end_marker = - 1
   \<and> generate_leaderboard stable_argsort ''p'' (Fin 800 (- 1)) ''alice'' no_end_doc
       = (None, start_marker @ alice_table @ [newline])
   \<and> start_marker @ alice_table @ [newline] \<noteq> no_end_doc"
proof -
  have "py_find no_end_doc start_marker = 0" by code_simp
  moreover have "py_find no_end_doc end_marker = - 1" by code_simp
  moreover have "start_marker @ alice_table @ [newline] \<noteq> no_end_doc" by code_simp
  ultimately show ?thesis using no_end_update by simp
qed

text \<open>
  C3, amended. The script checks no marker. \<^verbatim>\<open>find\<close> answers \<open>-1\<close> for a marker that
  is absent and the slices follow Python's rule for negative bounds. When the begin
  marker is absent, or the end marker is found at or before the place of the begin
  marker, the table region is empty, so for a score that is a number the update
  succeeds: the table of the one new entry is written between
  \<^verbatim>\<open>content[:start_index + 29]\<close> and \<^verbatim>\<open>content[end_index:]\<close>. When only the end marker
  is absent, the rows are read from \<^verbatim>\<open>content[start_index:-1]\<close>.
\<close>

theorem missing_marker_is_not_checked:
  assumes "argsort_ok argsort" and "acc \<noteq> NaN"
  shows "(py_find content start_marker = - 1
            \<or> (0 \<le> py_find content end_marker
                \<and> py_find content end_marker \<le> py_find content start_marker)
          \<longrightarrow> (\<exists>t. to_markdown [new_entry 0 prompt_name acc github_user] = Inr t
                 \<and> generate_leaderboard argsort prompt_name acc github_user content
                     = (None, slice_to content (py_find content start_marker + 29) @ t
                              @ slice_from content (py_find content end_marker))))
       \<and> (py_find content end_marker = - 1 \<and> 0 \<le> py_find content start_marker
          \<longrightarrow> extracted_rows content
                = drop 2 (re_findall (butlast (drop (nat (py_find content start_marker)) content))))"
proof (intro conjI impI)
  let ?e = "new_entry 0 prompt_name acc github_user"
  assume "py_find content start_marker = - 1
            \<or> (0 \<le> py_find content end_marker
                \<and> py_find content end_marker \<le> py_find content start_marker)"
  then have r: "extracted_rows content = []" by (rule empty_region)
  have "accuracy ?e \<noteq> NaN" using assms(2) by (simp add: new_entry_def)
  from merge_single [OF assms(1) this] have "merge argsort [] ?e = Inr [?e]"
    by (simp add: new_entry_def)
  then have d: "df_sorted argsort content prompt_name acc github_user = Inr [?e]"
    by (simp add: df_sorted_def r read_frame_def)
  from to_markdown_single obtain t where t: "to_markdown [?e] = Inr t" ..
  have "generate_leaderboard argsort prompt_name acc github_user content
          = (None, slice_to content (py_find content start_marker + 29) @ t
                   @ slice_from content (py_find content end_marker))"
    by (simp add: generate_leaderboard_def d t new_content_def length_start_marker)
  with t show "\<exists>t. to_markdown [?e] = Inr t
                 \<and> generate_leaderboard argsort prompt_name acc github_user content
                     = (None, slice_to content (py_find content start_marker + 29) @ t
                              @ slice_from content (py_find content end_marker))"
    by blast
next
  assume "py_find content end_marker = - 1 \<and> 0 \<le> py_find content start_marker"
  then show "extracted_rows content
                = drop 2 (re_findall (butlast (drop (nat (py_find content start_marker)) content)))"
    using region_without_end_marker by blast
qed

theorem missing_marker_is_not_checked_witness:
  "argsort_ok stable_argsort \<and> Fin 800 (- 1) \<noteq> NaN
   \<and> py_find ''# Leaderboard'' start_marker = - 1
   \<and> (\<exists>t. to_markdown [new_entry 0 ''p'' (Fin 800 (- 1)) ''alice''] = Inr t
         \<and> generate_leaderboard stable_argsort ''p'' (Fin 800 (- 1)) ''alice'' ''# Leaderboard''
             = (None, ''# Leaderboard'' @ t @ ''d''))"
proof -
  have n: "Fin 800 (- 1) \<noteq> NaN" by simp
  have s: "py_find ''# Leaderboard'' start_marker = - 1" by code_simp
  have e: "py_find ''# Leaderboard'' end_marker = - 1" by code_simp
  have a: "slice_to ''# Leaderboard'' (- 1 + 29) = ''# Leaderboard''" by code_simp
  have b: "slice_from ''# Leaderboard'' (- 1) = ''d''" by code_simp
  from missing_marker_is_not_checked [OF stable_argsort_ok n,
      of "''# Leaderboard''" "''p''" "''alice''"] s
  have "\<exists>t. to_markdown [new_entry 0 ''p'' (Fin 800 (- 1)) ''alice''] = Inr t
         \<and> generate_leaderboard stable_argsort ''p'' (Fin 800 (- 1)) ''alice'' ''# Leaderboard''
             = (None, ''# Leaderboard'' @ t @ ''d'')"
    by (simp only: s e a b) blast
  with stable_argsort_ok n s show ?thesis by blast
qed

subsection \<open>The order of equal scores\<close>







end
